theory Spec2Isabelle
  imports Main
begin

section \<open>Strings as Python sees them\<close>

text \<open>
  A Python \<open>str\<close> is modelled as a \<open>string\<close> whose characters are the code points
  0..255. \<open>isspace\<close> and \<open>lower_char\<close> are \<open>str.isspace\<close> and \<open>str.lower\<close> on
  that range. Text files are read in text mode (universal newlines) and written with
  \<open>\n\<close> as the line separator.
\<close>

abbreviation TAB :: char where "TAB \<equiv> CHR 0x09"
abbreviation LF :: char where "LF \<equiv> CHR 0x0A"
abbreviation CR :: char where "CR \<equiv> CHR 0x0D"

datatype py_error = IndexError | KeyError

definition isspace :: "char \<Rightarrow> bool" where
  "isspace c = (let n = (of_char c :: nat) in
     (9 \<le> n \<and> n \<le> 13) \<or> (28 \<le> n \<and> n \<le> 32) \<or> n = 133 \<or> n = 160)"

definition lower_char :: "char \<Rightarrow> char" where
  "lower_char c = (let n = (of_char c :: nat) in
     if (65 \<le> n \<and> n \<le> 90) \<or> (192 \<le> n \<and> n \<le> 214) \<or> (216 \<le> n \<and> n \<le> 222)
     then char_of (n + 32) else c)"

definition lower :: "string \<Rightarrow> string" where
  "lower s = map lower_char s"

text \<open>\<open>s.startswith(p)\<close>\<close>

fun startswith :: "string \<Rightarrow> string \<Rightarrow> bool" where
  "startswith s [] = True"
| "startswith [] (p # ps) = False"
| "startswith (c # cs) (p # ps) = (c = p \<and> startswith cs ps)"

text \<open>\<open>s.replace('\t', ' ')\<close>\<close>

definition replace_tab :: "string \<Rightarrow> string" where
  "replace_tab s = map (\<lambda>c. if c = TAB then CHR '' '' else c) s"

text \<open>\<open>s.split()\<close>: the maximal runs of non-whitespace characters; \<open>cur\<close> is the run
  being read.\<close>

fun split_acc :: "string \<Rightarrow> string \<Rightarrow> string list" where
  "split_acc cur [] = (if cur = [] then [] else [cur])"
| "split_acc cur (c # cs) =
     (if isspace c then (if cur = [] then split_acc [] cs else cur # split_acc [] cs)
      else split_acc (cur @ [c]) cs)"

definition split_ws :: "string \<Rightarrow> string list" where
  "split_ws s = split_acc [] s"

text \<open>\<open>s.split(sep)\<close> for a one-character separator: empty fields are kept.\<close>

fun split_on_acc :: "char \<Rightarrow> string \<Rightarrow> string \<Rightarrow> string list" where
  "split_on_acc sep cur [] = [cur]"
| "split_on_acc sep cur (c # cs) =
     (if c = sep then cur # split_on_acc sep [] cs else split_on_acc sep (cur @ [c]) cs)"

definition split_on :: "char \<Rightarrow> string \<Rightarrow> string list" where
  "split_on sep s = split_on_acc sep [] s"

text \<open>\<open>sep.join(xs)\<close>\<close>

fun join_str :: "string \<Rightarrow> string list \<Rightarrow> string" where
  "join_str sep [] = []"
| "join_str sep [x] = x"
| "join_str sep (x # y # ys) = x @ sep @ join_str sep (y # ys)"

text \<open>\<open>str(n)\<close> for an integer.\<close>

definition digits :: string where
  "digits = ''0123456789''"

fun str_nat :: "nat \<Rightarrow> string" where
  "str_nat n = (if n < 10 then [digits ! n]
                else str_nat (n div 10) @ [digits ! (n mod 10)])"

definition str_int :: "int \<Rightarrow> string" where
  "str_int i = (if i < 0 then CHR ''-'' # str_nat (nat (- i)) else str_nat (nat i))"

section \<open>Translation tables\<close>

definition actions_mapping :: "string \<rightharpoonup> string" where
  "actions_mapping = map_of
    [(''Swipe Up'', ''gesture swipe up''),
     (''Swipe Down'', ''gesture swipe down''),
     (''Swipe Left'', ''gesture swipe left''),
     (''Swipe LeftUp'', ''gesture swipe left_up''),
     (''Swipe LeftDown'', ''gesture swipe  left_down''),
     (''Swipe Right'', ''gesture swipe right''),
     (''Swipe RightUp'', ''gesture swipe right_up''),
     (''Swipe RightDown'', ''gesture swipe right_down''),
     (''Pinch In'', ''gesture pinch in''),
     (''Pinch Out'', ''gesture pinch out''),
     (''Pinch Clockwise'', ''gesture pinch clockwise''),
     (''Pinch Anticlockwise'', ''gesture pinch anticlockwise'')]"

definition reversed_mapping :: "string \<rightharpoonup> string" where
  "reversed_mapping = map_of
    [(''gesture swipe up'', ''Swipe Up''),
     (''gesture swipe down'', ''Swipe Down''),
     (''gesture swipe left'', ''Swipe Left''),
     (''gesture swipe left_up'', ''Swipe LeftUp''),
     (''gesture swipe left_down'', ''Swipe LeftDown''),
     (''gesture swipe right'', ''Swipe Right''),
     (''gesture swipe right_up'', ''Swipe RightUp''),
     (''gesture swipe right_down'', ''Swipe RightDown''),
     (''gesture pinch in'', ''Pinch In''),
     (''gesture pinch out'', ''Pinch Out''),
     (''gesture pinch clockwise'', ''Pinch Clockwise''),
     (''gesture pinch anticlockwise'', ''Pinch Anticlockwise'')]"

definition keys_mapping :: "string \<rightharpoonup> string" where
  "keys_mapping = map_of
    [(''meta'', ''super''),
     (''pgdown'', ''Page_Down''),
     (''pgup'', ''Page_Up''),
     (''right'', ''Right''),
     (''left'', ''Left''),
     (''up'', ''Up''),
     (''down'', ''Down''),
     (''f1'', ''F1''),
     (''f2'', ''F2''),
     (''f3'', ''F3''),
     (''f4'', ''F4''),
     (''f5'', ''F5''),
     (''f6'', ''F6''),
     (''f7'', ''F7''),
     (''f8'', ''F8''),
     (''f9'', ''F9''),
     (''f10'', ''F10''),
     (''f11'', ''F11''),
     (''f12'', ''F12'')]"

text \<open>A dictionary subscript \<open>d[k]\<close> raises \<open>KeyError\<close> on a missing key.\<close>

definition subscript :: "(string \<rightharpoonup> string) \<Rightarrow> string \<Rightarrow> py_error + string" where
  "subscript d k = (case d k of None \<Rightarrow> Inl KeyError | Some v \<Rightarrow> Inr v)"

text \<open>The twelve labels and the twelve tokens, as the two tables declare them.\<close>

definition declared_labels :: "string list" where
  "declared_labels =
    [''Swipe Up'', ''Swipe Down'', ''Swipe Left'', ''Swipe LeftUp'', ''Swipe LeftDown'',
     ''Swipe Right'', ''Swipe RightUp'', ''Swipe RightDown'', ''Pinch In'', ''Pinch Out'',
     ''Pinch Clockwise'', ''Pinch Anticlockwise'']"

definition declared_tokens :: "string list" where
  "declared_tokens =
    [''gesture swipe up'', ''gesture swipe down'', ''gesture swipe left'',
     ''gesture swipe left_up'', ''gesture swipe left_down'', ''gesture swipe right'',
     ''gesture swipe right_up'', ''gesture swipe right_down'', ''gesture pinch in'',
     ''gesture pinch out'', ''gesture pinch clockwise'', ''gesture pinch anticlockwise'']"

text \<open>Label to token to label, and token to label to token.\<close>

definition label_round_trip :: "string \<Rightarrow> py_error + string" where
  "label_round_trip label =
     (case subscript actions_mapping label of
        Inl e \<Rightarrow> Inl e
      | Inr token \<Rightarrow> subscript reversed_mapping token)"

definition token_round_trip :: "string \<Rightarrow> py_error + string" where
  "token_round_trip token =
     (case subscript reversed_mapping token of
        Inl e \<Rightarrow> Inl e
      | Inr label \<Rightarrow> subscript actions_mapping label)"

section \<open>Key-combo translator\<close>

text \<open>The loop of \<open>find_key_combo\<close>; \<open>xdotool_key_combo\<close> is the list it appends to.\<close>

fun find_key_combo_loop :: "string list \<Rightarrow> string list \<Rightarrow> string list" where
  "find_key_combo_loop xdotool_key_combo [] = xdotool_key_combo"
| "find_key_combo_loop xdotool_key_combo (qt_key # rest) =
     (let lowered_key = lower qt_key in
      case keys_mapping lowered_key of
        Some v \<Rightarrow> find_key_combo_loop (xdotool_key_combo @ [v]) rest
      | None \<Rightarrow> find_key_combo_loop (xdotool_key_combo @ [lowered_key]) rest)"

definition find_key_combo :: "string \<Rightarrow> string" where
  "find_key_combo qt_key_combo =
     join_str ''+'' (find_key_combo_loop [] (split_on (CHR ''+'') qt_key_combo))"

text \<open>The translation of one key name as the specification words it: the daemon key
  name when the lower-cased name is in the key table, the lower-cased name otherwise.\<close>

definition spec_translate_key :: "string \<Rightarrow> string" where
  "spec_translate_key k =
     (case keys_mapping (lower k) of Some v \<Rightarrow> v | None \<Rightarrow> lower k)"

section \<open>Config store\<close>

text \<open>
  The file at \<open>CONFIG_LOCATION\<close> is its text, or \<open>None\<close> when there is no file.
  \<open>readlines\<close> on a file opened in text mode first turns \<open>\r\n\<close> and a lone
  \<open>\r\<close> into \<open>\n\<close>, then cuts the text after every \<open>\n\<close>; a last line
  without \<open>\n\<close> is returned as it is.
\<close>

type_synonym config_file = "string option"

fun universal_newlines :: "string \<Rightarrow> string" where
  "universal_newlines [] = []"
| "universal_newlines [c] = [if c = CR then LF else c]"
| "universal_newlines (c # d # ds) =
     (if c = CR \<and> d = LF then LF # universal_newlines ds
      else if c = CR then LF # universal_newlines (d # ds)
      else c # universal_newlines (d # ds))"

fun readlines_acc :: "string \<Rightarrow> string \<Rightarrow> string list" where
  "readlines_acc cur [] = (if cur = [] then [] else [cur])"
| "readlines_acc cur (c # cs) =
     (if c = LF then (cur @ [c]) # readlines_acc [] cs else readlines_acc (cur @ [c]) cs)"

definition readlines :: "string \<Rightarrow> string list" where
  "readlines text = readlines_acc [] (universal_newlines text)"

text \<open>\<open>read_config\<close> returns the empty \<open>str\<close> when there is no file; every loop
  over it then runs zero times, as over the empty list.\<close>

definition read_config :: "config_file \<Rightarrow> string list" where
  "read_config f = (case f of None \<Rightarrow> [] | Some text \<Rightarrow> readlines text)"

definition write_config :: "string list \<Rightarrow> config_file" where
  "write_config new_conf = Some (join_str [] new_conf)"

section \<open>Repair: \<open>fix_config\<close>\<close>

text \<open>
  The body of the loop of \<open>fix_config\<close> for one line: \<open>Inr True\<close> when the line is
  appended to \<open>fixed_conf\<close>, \<open>Inr False\<close> when it is not, \<open>Inl IndexError\<close> when a
  subscript of \<open>splitted\<close> is out of range.
\<close>

definition fix_config_line :: "string \<Rightarrow> py_error + bool" where
  "fix_config_line line =
     (if startswith line ''#'' then Inr True
      else
        let splitted = split_ws (replace_tab line) in
        if length splitted \<le> 0 then Inl IndexError
        else if splitted ! 0 \<in> set [''gesture'', ''device'', ''swipe_threshold''] then
          if splitted ! 0 = ''gesture'' then
            if length splitted \<le> 4 then Inl IndexError
            else if splitted ! 4 = ''xdotool'' then
              if length splitted \<le> 5 then Inl IndexError
              else if splitted ! 5 = ''key'' \<and> length splitted = 7 then Inr True
              else Inr False
            else Inr True
          else
            if length splitted = 2 then Inr True else Inr False
        else Inr False)"

fun fix_config_loop :: "string list \<Rightarrow> string list \<Rightarrow> py_error + string list" where
  "fix_config_loop fixed_conf [] = Inr fixed_conf"
| "fix_config_loop fixed_conf (line # conf) =
     (case fix_config_line line of
        Inl e \<Rightarrow> Inl e
      | Inr keep \<Rightarrow> fix_config_loop (if keep then fixed_conf @ [line] else fixed_conf) conf)"

text \<open>\<open>fix_config\<close> hands \<open>write_config\<close> the joined text, a \<open>str\<close>; joining a
  \<open>str\<close> again joins its characters. When a line raises, nothing is written.\<close>

definition fix_config :: "config_file \<Rightarrow> py_error + config_file" where
  "fix_config f =
     (case fix_config_loop [] (read_config f) of
        Inl e \<Rightarrow> Inl e
      | Inr fixed_conf \<Rightarrow> Inr (write_config (map (\<lambda>c. [c]) (join_str [] fixed_conf))))"

section \<open>Parsing: \<open>prepare_config_for_displaying\<close>\<close>

record display =
  gestures :: "string list"
  fingers :: "string list"
  shortcuts :: "string list"
  buttons :: "string list"
  actions :: "string list"

definition empty_display :: display where
  "empty_display = \<lparr>gestures = [], fingers = [], shortcuts = [], buttons = [], actions = []\<rparr>"

text \<open>The body of the loop for a line that starts with \<open>gesture\<close>. The subscripts and
  the table lookup raise in the order of the source.\<close>

definition prepare_line :: "display \<Rightarrow> string \<Rightarrow> py_error + display" where
  "prepare_line d line =
     (let splitted = split_ws (replace_tab line) in
      if length splitted \<le> 2 then Inl IndexError
      else
        let action = splitted ! 0 @ '' '' @ splitted ! 1 @ '' '' @ splitted ! 2 in
        case subscript reversed_mapping action of
          Inl e \<Rightarrow> Inl e
        | Inr label \<Rightarrow>
            if length splitted \<le> 3 then Inl IndexError
            else if length splitted \<le> 4 then Inl IndexError
            else if splitted ! 4 = ''xdotool'' then
              if length splitted \<le> 5 then Inl IndexError
              else if splitted ! 5 = ''key'' then
                if length splitted \<le> 6 then Inl IndexError
                else Inr \<lparr>gestures = gestures d @ [label],
                          fingers = fingers d @ [splitted ! 3],
                          shortcuts = shortcuts d @ [splitted ! 6],
                          buttons = buttons d @ [action],
                          actions = actions d @ [''shortcut'']\<rparr>
              else Inr \<lparr>gestures = gestures d @ [label],
                        fingers = fingers d @ [splitted ! 3],
                        shortcuts = shortcuts d @ [join_str '' '' (drop 4 splitted)],
                        buttons = buttons d @ [action],
                        actions = actions d @ [''command'']\<rparr>
            else Inr \<lparr>gestures = gestures d @ [label],
                      fingers = fingers d @ [splitted ! 3],
                      shortcuts = shortcuts d @ [join_str '' '' (drop 4 splitted)],
                      buttons = buttons d @ [action],
                      actions = actions d @ [''command'']\<rparr>)"

fun prepare_loop :: "display \<Rightarrow> string list \<Rightarrow> py_error + display" where
  "prepare_loop d [] = Inr d"
| "prepare_loop d (line # conf) =
     (if startswith line ''gesture'' then
        (case prepare_line d line of
           Inl e \<Rightarrow> Inl e
         | Inr d' \<Rightarrow> prepare_loop d' conf)
      else prepare_loop d conf)"

definition prepare_config_for_displaying :: "config_file \<Rightarrow> py_error + display" where
  "prepare_config_for_displaying f = prepare_loop empty_display (read_config f)"

section \<open>Editing: \<open>delete_entry\<close> and \<open>save_changes\<close>\<close>

text \<open>\<open>delete_entry\<close>: \<open>accessibleName\<close> is the accessible name of the button that was
  clicked, which \<open>display_config\<close> sets to the entry of \<open>buttons\<close> in its row;
  \<open>reply_yes\<close> is the answer to the question box.\<close>

definition delete_entry :: "string \<Rightarrow> bool \<Rightarrow> config_file \<Rightarrow> config_file" where
  "delete_entry accessibleName reply_yes f =
     (if reply_yes
      then write_config (filter (\<lambda>line. \<not> startswith line accessibleName) (read_config f))
      else f)"

text \<open>The handlers of the edit form that set \<open>self.action\<close> and \<open>self.shortcut\<close>.\<close>

definition action_chosen :: "string \<Rightarrow> py_error + string" where
  "action_chosen text = subscript actions_mapping text"

definition shortcut_chosen :: "string \<Rightarrow> string" where
  "shortcut_chosen text = ''xdotool key '' @ find_key_combo (hd (split_on (CHR '','') text))"

definition command_chosen :: "string \<Rightarrow> string" where
  "command_chosen text = text"

text \<open>The prefix \<open>'{} {}'.format(action, str(fingers))\<close> and the line
  \<open>'{}\t{} {}\n'.format(action, str(fingers), shortcut)\<close> of \<open>save_changes\<close>.\<close>

definition entry_prefix :: "string \<Rightarrow> int \<Rightarrow> string" where
  "entry_prefix action n = action @ '' '' @ str_int n"

definition entry_line :: "string \<Rightarrow> int \<Rightarrow> string \<Rightarrow> string" where
  "entry_line action n shortcut = action @ [TAB] @ str_int n @ '' '' @ shortcut @ [LF]"

fun save_changes_loop :: "string \<Rightarrow> string list \<Rightarrow> string list \<Rightarrow> string list" where
  "save_changes_loop p new_conf [] = new_conf"
| "save_changes_loop p new_conf (line # conf) =
     (if \<not> startswith (replace_tab line) p
      then save_changes_loop p (new_conf @ [line]) conf
      else save_changes_loop p new_conf conf)"

text \<open>\<open>save_changes\<close> writes only when \<open>self.action\<close>, \<open>self.fingers\<close> and
  \<open>self.shortcut\<close> are all truthy.\<close>

definition save_changes :: "string \<Rightarrow> int \<Rightarrow> string \<Rightarrow> config_file \<Rightarrow> config_file" where
  "save_changes action n shortcut f =
     (if action \<noteq> [] \<and> n \<noteq> 0 \<and> shortcut \<noteq> []
      then write_config
             (save_changes_loop (entry_prefix action n) [] (read_config f)
              @ [entry_line action n shortcut])
      else f)"

section \<open>The line grammar of the specification\<close>

text \<open>\<open>tokens\<close> are the whitespace-delimited tokens of a line, tabs counted as spaces.\<close>

definition tokens :: "string \<Rightarrow> string list" where
  "tokens line = split_ws (replace_tab line)"

text \<open>A token that reads as an integer: an optional sign and at least one digit.\<close>

definition spec_parses_as_int :: "string \<Rightarrow> bool" where
  "spec_parses_as_int s =
     (case s of
        [] \<Rightarrow> False
      | c # cs \<Rightarrow>
          if c = CHR ''-'' \<or> c = CHR ''+''
          then cs \<noteq> [] \<and> list_all (\<lambda>d. d \<in> set digits) cs
          else list_all (\<lambda>d. d \<in> set digits) s)"

text \<open>
  The well-formed lines in the words of the specification: a comment; a \<open>device\<close> or
  \<open>swipe_threshold\<close> line of exactly two tokens; a \<open>gesture\<close> line whose first three
  tokens are a declared token, whose fourth token passes \<open>finger_ok\<close>, and whose
  \<open>xdotool\<close> form, when present, is \<open>xdotool key\<close> with seven tokens in all. The
  specification takes \<open>spec_parses_as_int\<close> for \<open>finger_ok\<close>.
\<close>

definition known_pair :: "string \<Rightarrow> bool" where
  "known_pair line =
     (let t = tokens line in
      reversed_mapping (t ! 0 @ '' '' @ t ! 1 @ '' '' @ t ! 2) \<noteq> None)"

definition spec_line_wellformed :: "(string \<Rightarrow> bool) \<Rightarrow> string \<Rightarrow> bool" where
  "spec_line_wellformed finger_ok line =
     (if startswith line ''#'' then True
      else
        let t = tokens line in
        if t = [] then False
        else if t ! 0 = ''device'' \<or> t ! 0 = ''swipe_threshold'' then length t = 2
        else if t ! 0 = ''gesture'' then
          5 \<le> length t
          \<and> reversed_mapping (t ! 0 @ '' '' @ t ! 1 @ '' '' @ t ! 2) \<noteq> None
          \<and> finger_ok (t ! 3)
          \<and> (if t ! 4 = ''xdotool'' then 6 \<le> length t \<and> t ! 5 = ''key'' \<and> length t = 7 else True)
        else False)"

text \<open>Comment lines and directive lines, whether well-formed or not.\<close>

definition passthrough_line :: "string \<Rightarrow> bool" where
  "passthrough_line line =
     (startswith line ''#''
      \<or> (tokens line \<noteq> []
          \<and> (tokens line ! 0 = ''device'' \<or> tokens line ! 0 = ''swipe_threshold'')))"

section \<open>Notions used in the results\<close>

text \<open>The lines on which the loop body of \<open>prepare_config_for_displaying\<close> raises.\<close>

definition parse_rejects :: "string \<Rightarrow> bool" where
  "parse_rejects line =
     (let t = tokens line in
      length t < 5
      \<or> reversed_mapping (t ! 0 @ '' '' @ t ! 1 @ '' '' @ t ! 2) = None
      \<or> (t ! 4 = ''xdotool'' \<and> (length t = 5 \<or> (t ! 5 = ''key'' \<and> length t = 6))))"

text \<open>
  The two kinds of action of the edit form. \<open>action_text\<close> is what the form stores in
  \<open>self.shortcut\<close>: \<open>shortcut_chosen\<close> puts \<open>xdotool key\<close> before the key combo,
  \<open>command_chosen\<close> stores the command as typed. \<open>kind_name\<close> is the word the parser
  appends to \<open>actions\<close>.
\<close>

datatype action_kind = Shortcut | Command

definition action_text :: "action_kind \<Rightarrow> string \<Rightarrow> string" where
  "action_text k v = (case k of Shortcut \<Rightarrow> ''xdotool key '' @ v | Command \<Rightarrow> command_chosen v)"

definition kind_name :: "action_kind \<Rightarrow> string" where
  "kind_name k = (case k of Shortcut \<Rightarrow> ''shortcut'' | Command \<Rightarrow> ''command'')"

text \<open>
  The action values that come back from the file as they were written: a key combo that
  is one token; a command that has a token, is its tokens joined by single spaces, and
  does not begin with \<open>xdotool\<close> alone or with \<open>xdotool key\<close>.
\<close>

definition value_survives :: "action_kind \<Rightarrow> string \<Rightarrow> bool" where
  "value_survives k v =
     (case k of
        Shortcut \<Rightarrow> split_ws v = [v]
      | Command \<Rightarrow>
          split_ws v \<noteq> [] \<and> join_str '' '' (split_ws v) = v
          \<and> \<not> (split_ws v ! 0 = ''xdotool'' \<and> (length (split_ws v) = 1 \<or> split_ws v ! 1 = ''key'')))"

text \<open>A line that ends with its only \<open>\n\<close>, and a list of lines as \<open>readlines\<close>
  returns it: every line but the last is terminated, the last is not empty.\<close>

definition terminated :: "string \<Rightarrow> bool" where
  "terminated l = (l \<noteq> [] \<and> last l = LF \<and> LF \<notin> set (butlast l))"

fun wf_lines :: "string list \<Rightarrow> bool" where
  "wf_lines [] = True"
| "wf_lines [l] = (l \<noteq> [] \<and> LF \<notin> set (butlast l))"
| "wf_lines (l # m # ls) = (terminated l \<and> wf_lines (m # ls))"

text \<open>What the proofs need of a token of the forward table.\<close>

definition token_facts :: "string \<Rightarrow> string \<Rightarrow> bool" where
  "token_facts label token =
     (length (split_ws token) = 3
      \<and> reversed_mapping (join_str '' '' (split_ws token)) = Some label
      \<and> startswith token ''gesture''
      \<and> TAB \<notin> set token \<and> LF \<notin> set token \<and> CR \<notin> set token)"

declare str_nat.simps [simp del]

section \<open>Results on the tables and the translator\<close>


text \<open>
  C1 (code defect). The forward table maps the label \<open>Swipe LeftDown\<close> to a token
  written with two spaces, \<open>gesture swipe  left_down\<close>; the reverse table declares the
  token with one space. So the reverse lookup of the forward image of \<open>Swipe LeftDown\<close>
  raises \<open>KeyError\<close> instead of returning the label, and the declared token
  \<open>gesture swipe left_down\<close> goes to \<open>Swipe LeftDown\<close> and then to a different
  token. The other eleven labels and tokens do round-trip.
\<close>

theorem C1_left_down_round_trip_fails:
  "''Swipe LeftDown'' \<in> set declared_labels
   \<and> subscript actions_mapping ''Swipe LeftDown'' = Inr ''gesture swipe  left_down''
   \<and> label_round_trip ''Swipe LeftDown'' = Inl KeyError
   \<and> ''gesture swipe left_down'' \<in> set declared_tokens
   \<and> token_round_trip ''gesture swipe left_down'' = Inr ''gesture swipe  left_down''
   \<and> token_round_trip ''gesture swipe left_down'' \<noteq> Inr ''gesture swipe left_down''"
  by (simp add: declared_labels_def declared_tokens_def label_round_trip_def
      token_round_trip_def subscript_def actions_mapping_def reversed_mapping_def)

lemma other_labels_round_trip:
  "list_all (\<lambda>l. label_round_trip l = Inr l) (remove1 ''Swipe LeftDown'' declared_labels)"
  by (simp add: declared_labels_def label_round_trip_def subscript_def
      actions_mapping_def reversed_mapping_def)

lemma other_tokens_round_trip:
  "list_all (\<lambda>t. token_round_trip t = Inr t) (remove1 ''gesture swipe left_down'' declared_tokens)"
  by (simp add: declared_tokens_def token_round_trip_def subscript_def
      actions_mapping_def reversed_mapping_def)

lemma find_key_combo_loop_map:
  "find_key_combo_loop acc ks = acc @ map spec_translate_key ks"
  by (induction ks arbitrary: acc) (simp_all add: spec_translate_key_def split: option.split)

text \<open>
  C8. For every chord string, \<open>find_key_combo\<close> splits it at \<open>+\<close>, translates every key
  name (the daemon key name when the lower-cased name is in the key table, the
  lower-cased name otherwise) and joins the results with \<open>+\<close>. The empty chord gives
  the empty chord, \<open>Meta+PgDown\<close> gives \<open>super+Page_Down\<close> and \<open>Ctrl+A\<close> gives
  \<open>ctrl+a\<close>.
\<close>

theorem C8_find_key_combo:
  "find_key_combo s = join_str ''+'' (map spec_translate_key (split_on (CHR ''+'') s))
   \<and> find_key_combo '''' = ''''
   \<and> find_key_combo ''Meta+PgDown'' = ''super+Page_Down''
   \<and> find_key_combo ''Ctrl+A'' = ''ctrl+a''"
proof -
  have general: "find_key_combo s = join_str ''+'' (map spec_translate_key (split_on (CHR ''+'') s))"
    by (simp add: find_key_combo_def find_key_combo_loop_map)
  have empty: "find_key_combo '''' = ''''"
    by code_simp
  have meta: "find_key_combo ''Meta+PgDown'' = ''super+Page_Down''"
    by code_simp
  have ctrl: "find_key_combo ''Ctrl+A'' = ''ctrl+a''"
    by code_simp
  from general empty meta ctrl show ?thesis by blast
qed

theorem C8_find_key_combo_witness:
  "find_key_combo ''Ctrl+Meta+F5'' = ''ctrl+super+F5''"
proof -
  have "join_str ''+'' (map spec_translate_key (split_on (CHR ''+'') ''Ctrl+Meta+F5'')) = ''ctrl+super+F5''"
    by code_simp
  with C8_find_key_combo [of "''Ctrl+Meta+F5''"] show ?thesis by simp
qed

section \<open>Lemmas on strings\<close>

lemma join_str_Nil: "join_str [] xs = concat xs"
proof (induction xs)
  case Nil
  then show ?case by simp
next
  case (Cons x xs)
  then show ?case by (cases xs) simp_all
qed

lemma concat_singletons: "concat (map (\<lambda>c. [c]) s) = s"
  by (induction s) simp_all

lemma startswith_take: "startswith s p = (take (length p) s = p)"
  by (induction s p rule: startswith.induct) auto

lemma startswith_append: "startswith (p @ s) p"
  by (simp add: startswith_take)

lemma startswith_Cons_neq: "c \<noteq> p \<Longrightarrow> \<not> startswith (c # cs) (p # ps)"
  by simp

lemma replace_tab_append: "replace_tab (a @ b) = replace_tab a @ replace_tab b"
  by (simp add: replace_tab_def)

lemma replace_tab_id: "TAB \<notin> set s \<Longrightarrow> replace_tab s = s"
  by (induction s) (auto simp: replace_tab_def)

lemma isspace_simps: "isspace TAB" "isspace LF" "isspace CR" "isspace (CHR '' '')"
  by (simp_all add: isspace_def)

lemma split_acc_space:
  "isspace c \<Longrightarrow> split_acc cur (a @ c # b) = split_acc cur a @ split_acc [] b"
  by (induction a arbitrary: cur) simp_all

lemma split_ws_space: "isspace c \<Longrightarrow> split_ws (a @ c # b) = split_ws a @ split_ws b"
  by (simp add: split_ws_def split_acc_space)

lemma split_acc_word:
  "\<forall>c\<in>set w. \<not> isspace c \<Longrightarrow> split_acc cur (w @ s) = split_acc (cur @ w) s"
  by (induction w arbitrary: cur) simp_all

lemma split_ws_word: "w \<noteq> [] \<Longrightarrow> \<forall>c\<in>set w. \<not> isspace c \<Longrightarrow> split_ws w = [w]"
  using split_acc_word [of w "[]" "[]"] by (simp add: split_ws_def)

lemma split_acc_tokens_all:
  "\<forall>c\<in>set cur. \<not> isspace c \<Longrightarrow>
   \<forall>t\<in>set (split_acc cur s). t \<noteq> [] \<and> (\<forall>c\<in>set t. \<not> isspace c)"
proof (induction s arbitrary: cur)
  case Nil
  then show ?case by simp
next
  case (Cons a s)
  show ?case
  proof (cases "isspace a")
    case True
    with Cons.IH [of "[]"] Cons.prems show ?thesis by simp
  next
    case False
    with Cons.IH [of "cur @ [a]"] Cons.prems show ?thesis by simp
  qed
qed

lemma split_acc_tokens:
  "\<forall>c\<in>set cur. \<not> isspace c \<Longrightarrow> t \<in> set (split_acc cur s) \<Longrightarrow> t \<noteq> [] \<and> (\<forall>c\<in>set t. \<not> isspace c)"
  using split_acc_tokens_all by blast

lemma split_ws_tokens:
  "t \<in> set (split_ws s) \<Longrightarrow> t \<noteq> [] \<and> (\<forall>c\<in>set t. \<not> isspace c)"
  using split_acc_tokens [of "[]" t s] by (simp add: split_ws_def)

lemma split_ws_single: "split_ws v = [v] \<Longrightarrow> v \<noteq> [] \<and> (\<forall>c\<in>set v. \<not> isspace c)"
  using split_ws_tokens [of v v] by simp

lemma split_acc_first:
  "cur \<noteq> [] \<Longrightarrow> \<exists>w rest. split_acc cur s = (cur @ w) # rest"
proof (induction s arbitrary: cur)
  case Nil
  then show ?case by simp
next
  case (Cons c s)
  show ?case
  proof (cases "isspace c")
    case True
    with Cons.prems show ?thesis by simp
  next
    case False
    from Cons.IH [of "cur @ [c]"] obtain w rest where "split_acc (cur @ [c]) s = ((cur @ [c]) @ w) # rest"
      by auto
    with False show ?thesis by simp
  qed
qed

lemma split_ws_first:
  assumes "\<not> isspace c"
  shows "\<exists>w rest. split_ws (c # s) = (c # w) # rest"
  using split_acc_first [of "[c]" s] assms by (simp add: split_ws_def)

lemma split_ws_join:
  "\<forall>t\<in>set ts. t \<noteq> [] \<and> (\<forall>c\<in>set t. \<not> isspace c) \<Longrightarrow> split_ws (join_str '' '' ts) = ts"
proof (induction ts)
  case Nil
  then show ?case by (simp add: split_ws_def)
next
  case (Cons x ts)
  show ?case
  proof (cases ts)
    case Nil
    with Cons.prems show ?thesis by (simp add: split_ws_word)
  next
    case (Cons y ys)
    have "split_ws (x @ CHR '' '' # join_str '' '' (y # ys)) = split_ws x @ split_ws (join_str '' '' (y # ys))"
      by (rule split_ws_space) (simp add: isspace_def)
    with Cons Cons.prems Cons.IH show ?thesis by (simp add: split_ws_word)
  qed
qed

lemma set_join_str: "set (join_str sep ts) \<subseteq> set sep \<union> \<Union> (set ` set ts)"
  by (induction sep ts rule: join_str.induct) auto

section \<open>Lemmas on reading and writing the file\<close>

lemma universal_newlines_no_CR: "CR \<notin> set (universal_newlines s)"
  by (induction s rule: universal_newlines.induct) simp_all

lemma universal_newlines_id: "CR \<notin> set s \<Longrightarrow> universal_newlines s = s"
  by (induction s rule: universal_newlines.induct) auto

lemma universal_newlines_last:
  "s \<noteq> [] \<Longrightarrow> last s = LF \<Longrightarrow> universal_newlines s \<noteq> [] \<and> last (universal_newlines s) = LF"
  by (induction s rule: universal_newlines.induct) (auto split: if_splits)

lemma concat_readlines_acc: "concat (readlines_acc cur s) = cur @ s"
  by (induction s arbitrary: cur) simp_all

lemma wf_lines_Cons: "terminated l \<Longrightarrow> wf_lines ls \<Longrightarrow> wf_lines (l # ls)"
  by (cases ls) (simp_all add: terminated_def)

lemma wf_lines_tail: "wf_lines (l # ls) \<Longrightarrow> wf_lines ls"
  by (cases ls) simp_all

lemma wf_lines_head: "wf_lines (l # ls) \<Longrightarrow> l \<noteq> [] \<and> LF \<notin> set (butlast l)"
  by (cases ls) (simp_all add: terminated_def)

lemma wf_lines_readlines_acc: "LF \<notin> set cur \<Longrightarrow> wf_lines (readlines_acc cur s)"
proof (induction s arbitrary: cur)
  case Nil
  then show ?case by (auto dest: in_set_butlastD)
next
  case (Cons c s)
  show ?case
  proof (cases "c = LF")
    case True
    have "terminated (cur @ [LF])" using Cons.prems by (simp add: terminated_def)
    moreover have "wf_lines (readlines_acc [] s)" by (rule Cons.IH) simp
    ultimately show ?thesis using True by (simp add: wf_lines_Cons)
  next
    case False
    with Cons.prems have "wf_lines (readlines_acc (cur @ [c]) s)" by (intro Cons.IH) simp
    with False show ?thesis by simp
  qed
qed

lemma wf_lines_filter: "wf_lines ls \<Longrightarrow> wf_lines (filter P ls)"
proof (induction ls rule: wf_lines.induct)
  case 1
  then show ?case by simp
next
  case (2 l)
  then show ?case by simp
next
  case (3 l m ls)
  then have "wf_lines (filter P (m # ls))" by simp
  with 3 show ?case by (simp add: wf_lines_Cons del: filter.simps(2) add: filter.simps(2)[of P l])
qed

lemma readlines_acc_word:
  "LF \<notin> set w \<Longrightarrow> readlines_acc cur (w @ s) = readlines_acc (cur @ w) s"
  by (induction w arbitrary: cur) auto

lemma readlines_acc_terminated:
  assumes "terminated l"
  shows "readlines_acc [] (l @ s) = l # readlines_acc [] s"
proof -
  from assms have l: "l = butlast l @ [LF]" and w: "LF \<notin> set (butlast l)"
    by (auto simp: terminated_def dest: append_butlast_last_id)
  have "readlines_acc [] (butlast l @ LF # s) = readlines_acc (butlast l) (LF # s)"
    using readlines_acc_word [OF w, of "[]" "LF # s"] by simp
  also have "\<dots> = (butlast l @ [LF]) # readlines_acc [] s" by simp
  finally show ?thesis using l by (metis append.assoc append_Cons append_Nil)
qed

lemma readlines_acc_concat: "wf_lines ls \<Longrightarrow> readlines_acc [] (concat ls) = ls"
proof (induction ls rule: wf_lines.induct)
  case 1
  then show ?case by simp
next
  case (2 l)
  then have l: "l \<noteq> []" and w: "LF \<notin> set (butlast l)" by simp_all
  show ?case
  proof (cases "last l = LF")
    case True
    with l w have "terminated l" by (simp add: terminated_def)
    from readlines_acc_terminated [OF this, of "[]"] show ?thesis by simp
  next
    case False
    with l w have "LF \<notin> set l" by (metis append_butlast_last_id rotate1.simps(2) set_ConsD set_rotate1)
    from readlines_acc_word [OF this, of "[]" "[]"] l show ?thesis by simp
  qed
next
  case (3 l m ls)
  then show ?case by (simp add: readlines_acc_terminated)
qed

lemma set_readlines_acc: "l \<in> set (readlines_acc cur s) \<Longrightarrow> set l \<subseteq> set cur \<union> set s"
  using concat_readlines_acc [of cur s] by (metis set_append set_concat UN_upper)

lemma read_config_no_CR: "l \<in> set (read_config f) \<Longrightarrow> CR \<notin> set l"
proof (cases f)
  case None
  assume "l \<in> set (read_config f)"
  with None show ?thesis by (simp add: read_config_def)
next
  case (Some t)
  assume "l \<in> set (read_config f)"
  with Some have "set l \<subseteq> set (universal_newlines t)"
    using set_readlines_acc [of l "[]" "universal_newlines t"] by (simp add: read_config_def readlines_def)
  then show ?thesis using universal_newlines_no_CR by blast
qed

lemma wf_lines_read_config: "wf_lines (read_config f)"
  by (cases f) (simp_all add: read_config_def readlines_def wf_lines_readlines_acc)

text \<open>Reading back what was written.\<close>

lemma read_write_config:
  assumes "wf_lines ls" and "\<forall>l\<in>set ls. CR \<notin> set l"
  shows "read_config (write_config ls) = ls"
proof -
  from assms(2) have "CR \<notin> set (concat ls)" by auto
  then show ?thesis
    using assms(1)
    by (simp add: read_config_def write_config_def readlines_def join_str_Nil
        universal_newlines_id readlines_acc_concat)
qed

lemma read_write_filter:
  "read_config (write_config (filter P (read_config f))) = filter P (read_config f)"
  by (rule read_write_config) (auto simp: wf_lines_filter wf_lines_read_config read_config_no_CR)

section \<open>Results on repair\<close>

lemma comment_first_token:
  assumes "startswith line ''#''"
  shows "tokens line \<noteq> [] \<and> tokens line ! 0 \<noteq> ''gesture''"
proof -
  from assms obtain rest where line: "line = CHR ''#'' # rest"
    by (cases line) simp_all
  have "\<not> isspace (CHR ''#'')" by (simp add: isspace_def)
  from split_ws_first [OF this, of "replace_tab rest"]
  obtain w r where "split_ws (CHR ''#'' # replace_tab rest) = (CHR ''#'' # w) # r" by blast
  with line show ?thesis by (simp add: tokens_def replace_tab_def)
qed

lemma fix_config_line_error: "fix_config_line line = Inl e \<Longrightarrow> e = IndexError"
  by (auto simp: fix_config_line_def Let_def split: if_splits)

lemma fix_config_line_raises:
  assumes "(\<not> startswith line ''#'' \<and> tokens line = [])
           \<or> (tokens line \<noteq> [] \<and> tokens line ! 0 = ''gesture'' \<and> length (tokens line) < 5)"
  shows "fix_config_line line = Inl IndexError"
proof -
  from assms comment_first_token [of line] have "\<not> startswith line ''#''" by blast
  with assms show ?thesis
    by (auto simp: fix_config_line_def tokens_def Let_def)
qed

lemma fix_config_loop_error: "fix_config_loop acc ls = Inl e \<Longrightarrow> e = IndexError"
  by (induction ls arbitrary: acc) (auto split: sum.splits dest: fix_config_line_error)

lemma fix_config_loop_raises:
  "l \<in> set ls \<Longrightarrow> fix_config_line l = Inl IndexError \<Longrightarrow> fix_config_loop acc ls = Inl IndexError"
proof (induction ls arbitrary: acc)
  case Nil
  then show ?case by simp
next
  case (Cons a ls)
  show ?case
  proof (cases "fix_config_line a")
    case (Inl e)
    then show ?thesis by (simp add: fix_config_line_error)
  next
    case (Inr keep)
    with Cons.prems have "l \<in> set ls" by auto
    from Cons.IH [OF this Cons.prems(2)] Inr show ?thesis by simp
  qed
qed

lemma fix_config_loop_Inr:
  "fix_config_loop acc ls = Inr res \<Longrightarrow>
   res = acc @ filter (\<lambda>l. fix_config_line l = Inr True) ls
   \<and> (\<forall>l\<in>set ls. \<exists>b. fix_config_line l = Inr b)"
proof (induction ls arbitrary: acc)
  case Nil
  then show ?case by simp
next
  case (Cons a ls)
  from Cons.prems obtain keep where a: "fix_config_line a = Inr keep"
    by (cases "fix_config_line a") simp_all
  with Cons.prems have "fix_config_loop (if keep then acc @ [a] else acc) ls = Inr res" by simp
  from Cons.IH [OF this] a show ?case by (cases keep) auto
qed

lemma fix_config_loop_total:
  "\<forall>l\<in>set ls. \<exists>b. fix_config_line l = Inr b \<Longrightarrow>
   fix_config_loop acc ls = Inr (acc @ filter (\<lambda>l. fix_config_line l = Inr True) ls)"
proof (induction ls arbitrary: acc)
  case Nil
  then show ?case by simp
next
  case (Cons a ls)
  then obtain keep where a: "fix_config_line a = Inr keep" by auto
  from Cons.prems have "\<forall>l\<in>set ls. \<exists>b. fix_config_line l = Inr b" by simp
  from Cons.IH [OF this] a show ?case by (cases keep) simp_all
qed

lemma fix_config_Inr:
  assumes "fix_config f = Inr f'"
  shows "f' = write_config (filter (\<lambda>l. fix_config_line l = Inr True) (read_config f))
         \<and> read_config f' = filter (\<lambda>l. fix_config_line l = Inr True) (read_config f)
         \<and> (\<forall>l\<in>set (read_config f). \<exists>b. fix_config_line l = Inr b)"
proof -
  from assms obtain res where res: "fix_config_loop [] (read_config f) = Inr res"
    and f': "f' = write_config (map (\<lambda>c. [c]) (join_str [] res))"
    by (auto simp: fix_config_def split: sum.splits)
  from fix_config_loop_Inr [OF res]
  have r: "res = filter (\<lambda>l. fix_config_line l = Inr True) (read_config f)"
    and ok: "\<forall>l\<in>set (read_config f). \<exists>b. fix_config_line l = Inr b" by simp_all
  have "write_config (map (\<lambda>c. [c]) (join_str [] res)) = write_config res"
    by (simp add: write_config_def join_str_Nil concat_singletons)
  with f' r have w: "f' = write_config (filter (\<lambda>l. fix_config_line l = Inr True) (read_config f))"
    by simp
  then have "read_config f' = filter (\<lambda>l. fix_config_line l = Inr True) (read_config f)"
    by (simp add: read_write_filter)
  with w ok show ?thesis by blast
qed

text \<open>
  C9. Repairing twice is repairing once: when \<open>fix_config\<close> raises on a file, nothing
  is written and repairing again is not reached; when it returns a file, \<open>fix_config\<close>
  on that file returns the same file.
\<close>

theorem C9_fix_config_idempotent:
  "(case fix_config f of Inl e \<Rightarrow> Inl e | Inr f' \<Rightarrow> fix_config f') = fix_config f"
proof (cases "fix_config f")
  case (Inl e)
  then show ?thesis by simp
next
  case (Inr f')
  let ?K = "\<lambda>l. fix_config_line l = Inr True"
  from fix_config_Inr [OF Inr]
  have f': "f' = write_config (filter ?K (read_config f))"
    and r: "read_config f' = filter ?K (read_config f)" by blast+
  have "\<forall>l\<in>set (read_config f'). \<exists>b. fix_config_line l = Inr b" using r by auto
  from fix_config_loop_total [OF this, of "[]"]
  have "fix_config_loop [] (read_config f') = Inr (filter ?K (read_config f'))" by simp
  also have "filter ?K (read_config f') = filter ?K (read_config f)" using r by simp
  finally have "fix_config f' = Inr (write_config (filter ?K (read_config f)))"
    by (simp add: fix_config_def write_config_def join_str_Nil concat_singletons)
  with f' Inr show ?thesis by simp
qed

text \<open>
  C10. \<open>fix_config\<close> is not total: on every file with a line that is not a comment and
  has no token (a blank line), or a line whose first token is \<open>gesture\<close> and that has
  fewer than five tokens, it raises \<open>IndexError\<close> and returns no filtered file.
\<close>

theorem C10_fix_config_raises:
  assumes "line \<in> set (read_config f)"
    and "(\<not> startswith line ''#'' \<and> tokens line = [])
         \<or> (tokens line \<noteq> [] \<and> tokens line ! 0 = ''gesture'' \<and> length (tokens line) < 5)"
  shows "fix_config f = Inl IndexError"
  using fix_config_loop_raises [OF assms(1) fix_config_line_raises [OF assms(2)], of "[]"]
  by (simp add: fix_config_def)

lemma fix_config_line_wellformed:
  assumes "fix_config_line line = Inr b"
    and "tokens line \<noteq> [] \<and> tokens line ! 0 = ''gesture'' \<longrightarrow> known_pair line"
  shows "b = spec_line_wellformed (\<lambda>_. True) line"
  using assms
  by (auto simp: fix_config_line_def spec_line_wellformed_def known_pair_def tokens_def Let_def
      split: if_splits)

text \<open>
  C3 (as the code has it). On a file on which \<open>fix_config\<close> returns, and whose lines
  with first token \<open>gesture\<close> all begin with a declared token, the result is exactly
  the lines that the grammar of the specification calls well-formed once its integer
  test on the fourth token is left out: comments, directives of two tokens, and
  \<open>gesture\<close> lines whose \<open>xdotool\<close> form, when present, is \<open>xdotool key\<close> with
  seven tokens. The lines are kept in order and unchanged; every other line is dropped.
\<close>

theorem C3_fix_config_filters:
  assumes "fix_config f = Inr f'"
    and "\<forall>line\<in>set (read_config f).
           tokens line \<noteq> [] \<and> tokens line ! 0 = ''gesture'' \<longrightarrow> known_pair line"
  shows "read_config f' = filter (spec_line_wellformed (\<lambda>_. True)) (read_config f)
         \<and> f' = Some (concat (filter (spec_line_wellformed (\<lambda>_. True)) (read_config f)))"
proof -
  let ?K = "\<lambda>l. fix_config_line l = Inr True"
  from fix_config_Inr [OF assms(1)]
  have f': "f' = write_config (filter ?K (read_config f))"
    and r: "read_config f' = filter ?K (read_config f)"
    and ok: "\<forall>l\<in>set (read_config f). \<exists>b. fix_config_line l = Inr b" by blast+
  have "?K l = spec_line_wellformed (\<lambda>_. True) l" if "l \<in> set (read_config f)" for l
  proof -
    from ok that obtain b where b: "fix_config_line l = Inr b" by blast
    from fix_config_line_wellformed [OF b] assms(2) that
    have "b = spec_line_wellformed (\<lambda>_. True) l" by blast
    with b show ?thesis by simp
  qed
  then have "filter ?K (read_config f) = filter (spec_line_wellformed (\<lambda>_. True)) (read_config f)"
    by (intro filter_cong) simp_all
  with f' r show ?thesis by (simp add: write_config_def join_str_Nil)
qed

text \<open>The two inputs that C10 names.\<close>

theorem C10_witness:
  "fix_config (Some ''device touchpad\<newline>\<newline>'') = Inl IndexError
   \<and> fix_config (Some ''gesture swipe up\<newline>'') = Inl IndexError"
proof -
  have a: "''\<newline>'' \<in> set (read_config (Some ''device touchpad\<newline>\<newline>''))"
    by code_simp
  have b: "\<not> startswith ''\<newline>'' ''#'' \<and> tokens ''\<newline>'' = []"
    by code_simp
  have c: "''gesture swipe up\<newline>'' \<in> set (read_config (Some ''gesture swipe up\<newline>''))"
    by code_simp
  have d: "tokens ''gesture swipe up\<newline>'' \<noteq> [] \<and> tokens ''gesture swipe up\<newline>'' ! 0 = ''gesture''
           \<and> length (tokens ''gesture swipe up\<newline>'') < 5"
    by code_simp
  from C10_fix_config_raises [OF a] b C10_fix_config_raises [OF c] d show ?thesis by blast
qed

text \<open>A file with a line that repair drops.\<close>

theorem C9_witness:
  "fix_config (Some ''# c\<newline>foo bar\<newline>device touchpad'') = Inr (Some ''# c\<newline>device touchpad'')
   \<and> fix_config (Some ''# c\<newline>device touchpad'') = Inr (Some ''# c\<newline>device touchpad'')"
proof -
  have a: "fix_config (Some ''# c\<newline>foo bar\<newline>device touchpad'') = Inr (Some ''# c\<newline>device touchpad'')"
    by code_simp
  from C9_fix_config_idempotent [of "Some ''# c\<newline>foo bar\<newline>device touchpad''"] a
  show ?thesis by simp
qed

text \<open>A file with a kept non-integer finger count and dropped lines.\<close>

theorem C3_witness:
  "fix_config (Some ''# c\<newline>device touchpad\<newline>device touchpad extra\<newline>gesture swipe up three xdotool key F1\<newline>gesture swipe up 3 xdotool key a b\<newline>foo\<newline>'')
     = Inr (Some ''# c\<newline>device touchpad\<newline>gesture swipe up three xdotool key F1\<newline>'')
   \<and> filter (spec_line_wellformed (\<lambda>_. True))
       (read_config (Some ''# c\<newline>device touchpad\<newline>device touchpad extra\<newline>gesture swipe up three xdotool key F1\<newline>gesture swipe up 3 xdotool key a b\<newline>foo\<newline>''))
     = [''# c\<newline>'', ''device touchpad\<newline>'', ''gesture swipe up three xdotool key F1\<newline>'']"
proof -
  let ?f = "Some ''# c\<newline>device touchpad\<newline>device touchpad extra\<newline>gesture swipe up three xdotool key F1\<newline>gesture swipe up 3 xdotool key a b\<newline>foo\<newline>''"
  have a: "fix_config ?f = Inr (Some ''# c\<newline>device touchpad\<newline>gesture swipe up three xdotool key F1\<newline>'')"
    by code_simp
  have b: "\<forall>line\<in>set (read_config ?f).
           tokens line \<noteq> [] \<and> tokens line ! 0 = ''gesture'' \<longrightarrow> known_pair line"
    by code_simp
  have c: "read_config (Some ''# c\<newline>device touchpad\<newline>gesture swipe up three xdotool key F1\<newline>'')
     = [''# c\<newline>'', ''device touchpad\<newline>'', ''gesture swipe up three xdotool key F1\<newline>'']"
    by code_simp
  from C3_fix_config_filters [OF a b] a c show ?thesis by simp
qed

text \<open>The specification calls this line malformed; repair keeps it.\<close>

theorem C3_counterexample:
  "\<not> spec_line_wellformed spec_parses_as_int ''gesture swipe up three xdotool key F1\<newline>''
   \<and> read_config (Some ''gesture swipe up three xdotool key F1\<newline>'') = [''gesture swipe up three xdotool key F1\<newline>'']
   \<and> fix_config (Some ''gesture swipe up three xdotool key F1\<newline>'') = Inr (Some ''gesture swipe up three xdotool key F1\<newline>'')"
  by code_simp

section \<open>Results on parsing\<close>

lemma prepare_line_Inl: "(\<exists>e. prepare_line d line = Inl e) = parse_rejects line"
  by (auto simp: prepare_line_def parse_rejects_def tokens_def subscript_def Let_def
      split: option.splits if_splits)

lemma prepare_loop_Inl:
  "(\<exists>e. prepare_loop d ls = Inl e) = (\<exists>l\<in>set ls. startswith l ''gesture'' \<and> parse_rejects l)"
proof (induction ls arbitrary: d)
  case Nil
  then show ?case by simp
next
  case (Cons a ls)
  show ?case
  proof (cases "startswith a ''gesture''")
    case False
    with Cons.IH [of d] show ?thesis by simp
  next
    case True
    show ?thesis
    proof (cases "prepare_line d a")
      case (Inl e)
      then have "parse_rejects a" using prepare_line_Inl [of d a] by auto
      with True Inl show ?thesis by auto
    next
      case (Inr d')
      then have "\<not> parse_rejects a" using prepare_line_Inl [of d a] by auto
      with True Inr Cons.IH [of d'] show ?thesis by auto
    qed
  qed
qed

text \<open>
  C2 (as the code has it). \<open>prepare_config_for_displaying\<close> returns an error, and no
  lists, exactly when some line of the file starts with \<open>gesture\<close> and has fewer than
  five tokens, or first three tokens that are not a declared token (an unknown
  direction, say), or an \<open>xdotool\<close> action that lacks the tokens read after it. The
  finger-count token is not tested.
\<close>

theorem C2_parse_fails_fast:
  "(\<exists>e. prepare_config_for_displaying f = Inl e)
   = (\<exists>line\<in>set (read_config f). startswith line ''gesture'' \<and> parse_rejects line)"
  by (simp add: prepare_config_for_displaying_def prepare_loop_Inl)

text \<open>The example line of the specification, after two lines that parse.\<close>

theorem C2_witness:
  "(\<exists>line\<in>set (read_config (Some ''# c\<newline>gesture swipe up 3 xdotool key a\<newline>gesture swipe sideways 3 xdotool key F1\<newline>'')).
      startswith line ''gesture'' \<and> parse_rejects line)
   \<and> (\<exists>e. prepare_config_for_displaying
        (Some ''# c\<newline>gesture swipe up 3 xdotool key a\<newline>gesture swipe sideways 3 xdotool key F1\<newline>'') = Inl e)"
proof -
  have "\<exists>line\<in>set (read_config (Some ''# c\<newline>gesture swipe up 3 xdotool key a\<newline>gesture swipe sideways 3 xdotool key F1\<newline>'')).
      startswith line ''gesture'' \<and> parse_rejects line"
    by code_simp
  with C2_parse_fails_fast [of "Some ''# c\<newline>gesture swipe up 3 xdotool key a\<newline>gesture swipe sideways 3 xdotool key F1\<newline>''"]
  show ?thesis by blast
qed

text \<open>A finger count that is not an integer parses without error.\<close>

theorem C2_counterexample:
  "\<not> spec_line_wellformed spec_parses_as_int ''gesture swipe up three xdotool key F1\<newline>''
   \<and> tokens ''gesture swipe up three xdotool key F1\<newline>'' ! 0 = ''gesture''
   \<and> \<not> spec_parses_as_int (tokens ''gesture swipe up three xdotool key F1\<newline>'' ! 3)
   \<and> prepare_config_for_displaying (Some ''gesture swipe up three xdotool key F1\<newline>'')
       = Inr \<lparr>gestures = [''Swipe Up''], fingers = [''three''], shortcuts = [''F1''],
              buttons = [''gesture swipe up''], actions = [''shortcut'']\<rparr>"
  by code_simp

lemma length_digits: "length digits = 10"
  by (simp add: digits_def)

lemma digits_plain: "\<forall>c\<in>set (CHR ''-'' # digits). \<not> isspace c \<and> c \<noteq> TAB \<and> c \<noteq> LF \<and> c \<noteq> CR"
  by (simp add: digits_def isspace_def)

lemma str_nat_digits: "str_nat n \<noteq> [] \<and> set (str_nat n) \<subseteq> set digits"
proof (induction n rule: str_nat.induct)
  case (1 n)
  have d: "digits ! k \<in> set digits" if "k < 10" for k
    using that by (intro nth_mem) (simp add: length_digits)
  show ?case
  proof (cases "n < 10")
    case True
    then have "str_nat n = [digits ! n]" by (subst str_nat.simps) simp
    with d [OF True] show ?thesis by simp
  next
    case False
    then have "str_nat n = str_nat (n div 10) @ [digits ! (n mod 10)]"
      by (subst str_nat.simps) simp
    moreover have "digits ! (n mod 10) \<in> set digits" by (rule d) simp
    ultimately show ?thesis using 1 [OF False] by simp
  qed
qed

lemma str_int_chars: "str_int n \<noteq> [] \<and> set (str_int n) \<subseteq> set (CHR ''-'' # digits)"
proof (cases "n < 0")
  case True
  with str_nat_digits [of "nat (- n)"] show ?thesis by (auto simp: str_int_def)
next
  case False
  with str_nat_digits [of "nat n"] show ?thesis by (auto simp: str_int_def)
qed

lemma str_int_word:
  "str_int n \<noteq> []" "\<forall>c\<in>set (str_int n). \<not> isspace c" "TAB \<notin> set (str_int n)"
  "LF \<notin> set (str_int n)" "CR \<notin> set (str_int n)"
proof -
  from str_int_chars [of n] show "str_int n \<noteq> []" by blast
  from str_int_chars [of n] have sub: "set (str_int n) \<subseteq> set (CHR ''-'' # digits)" by blast
  with digits_plain show "\<forall>c\<in>set (str_int n). \<not> isspace c" by blast
  from sub digits_plain show "TAB \<notin> set (str_int n)" by blast
  from sub digits_plain show "LF \<notin> set (str_int n)" by blast
  from sub digits_plain show "CR \<notin> set (str_int n)" by blast
qed

lemma actions_mapping_table:
  "list_all (\<lambda>(label, token). token_facts label token)
    [(''Swipe Up'', ''gesture swipe up''),
     (''Swipe Down'', ''gesture swipe down''),
     (''Swipe Left'', ''gesture swipe left''),
     (''Swipe LeftUp'', ''gesture swipe left_up''),
     (''Swipe LeftDown'', ''gesture swipe  left_down''),
     (''Swipe Right'', ''gesture swipe right''),
     (''Swipe RightUp'', ''gesture swipe right_up''),
     (''Swipe RightDown'', ''gesture swipe right_down''),
     (''Pinch In'', ''gesture pinch in''),
     (''Pinch Out'', ''gesture pinch out''),
     (''Pinch Clockwise'', ''gesture pinch clockwise''),
     (''Pinch Anticlockwise'', ''gesture pinch anticlockwise'')]"
  by code_simp

lemma list_all_memD: "list_all P xs \<Longrightarrow> x \<in> set xs \<Longrightarrow> P x"
  by (simp add: list_all_iff)

lemma actions_mapping_facts:
  assumes "actions_mapping label = Some token"
  shows "token_facts label token"
proof -
  from assms have "(label, token) \<in> set
    [(''Swipe Up'', ''gesture swipe up''),
     (''Swipe Down'', ''gesture swipe down''),
     (''Swipe Left'', ''gesture swipe left''),
     (''Swipe LeftUp'', ''gesture swipe left_up''),
     (''Swipe LeftDown'', ''gesture swipe  left_down''),
     (''Swipe Right'', ''gesture swipe right''),
     (''Swipe RightUp'', ''gesture swipe right_up''),
     (''Swipe RightDown'', ''gesture swipe right_down''),
     (''Pinch In'', ''gesture pinch in''),
     (''Pinch Out'', ''gesture pinch out''),
     (''Pinch Clockwise'', ''gesture pinch clockwise''),
     (''Pinch Anticlockwise'', ''gesture pinch anticlockwise'')]"
    unfolding actions_mapping_def by (rule map_of_SomeD)
  from list_all_memD [OF actions_mapping_table this] show ?thesis
    by (rule case_prodD)
qed

lemma startswith_appendI: "startswith a p \<Longrightarrow> startswith (a @ b) p"
  by (induction a p rule: startswith.induct) simp_all

lemma replace_tab_Cons:
  "replace_tab (c # s) = (if c = TAB then CHR '' '' else c) # replace_tab s"
  by (simp add: replace_tab_def)

lemma replace_tab_Nil: "replace_tab [] = []"
  by (simp add: replace_tab_def)

lemma read_config_single:
  assumes "LF \<notin> set w" and "CR \<notin> set w"
  shows "read_config (Some (w @ [LF])) = [w @ [LF]]"
proof -
  have "read_config (write_config [w @ [LF]]) = [w @ [LF]]"
    using assms by (intro read_write_config) simp_all
  then show ?thesis by (simp add: write_config_def)
qed

lemma entry_line_tokens:
  assumes "TAB \<notin> set token" and "TAB \<notin> set text"
  shows "tokens (entry_line token n text) = split_ws token @ [str_int n] @ split_ws text"
proof -
  have sp: "isspace (CHR '' '')" and lf: "isspace LF" by (simp_all add: isspace_def)
  have "replace_tab (entry_line token n text)
        = token @ CHR '' '' # (str_int n @ CHR '' '' # (text @ LF # []))"
    using assms str_int_word(3) [of n]
    by (simp add: entry_line_def replace_tab_append replace_tab_id replace_tab_Cons replace_tab_Nil)
  then have "tokens (entry_line token n text)
        = split_ws token @ split_ws (str_int n) @ split_ws text @ split_ws []"
    by (simp only: tokens_def split_ws_space [OF sp] split_ws_space [OF lf])
  moreover have "split_ws (str_int n) = [str_int n]"
    using str_int_word(1,2) by (rule split_ws_word)
  ultimately show ?thesis by (simp add: split_ws_def)
qed

lemma value_survives_plain:
  assumes "value_survives k v"
  shows "\<forall>c\<in>set v. c = CHR '' '' \<or> \<not> isspace c"
proof (cases k)
  case Shortcut
  with assms have "split_ws v = [v]" by (simp add: value_survives_def)
  from split_ws_single [OF this] show ?thesis by blast
next
  case Command
  with assms have j: "join_str '' '' (split_ws v) = v" by (simp add: value_survives_def)
  have "set (join_str '' '' (split_ws v)) \<subseteq> set '' '' \<union> \<Union> (set ` set (split_ws v))"
    by (rule set_join_str)
  with j have "set v \<subseteq> set '' '' \<union> \<Union> (set ` set (split_ws v))" by simp
  moreover have "\<forall>t\<in>set (split_ws v). \<forall>c\<in>set t. \<not> isspace c"
    using split_ws_tokens by blast
  ultimately show ?thesis by auto
qed

lemma action_text_plain:
  assumes "value_survives k v"
  shows "TAB \<notin> set (action_text k v) \<and> LF \<notin> set (action_text k v) \<and> CR \<notin> set (action_text k v)"
proof -
  have ws: "isspace TAB" "isspace LF" "isspace CR" by (simp_all add: isspace_def)
  from value_survives_plain [OF assms] ws
  have "TAB \<notin> set v \<and> LF \<notin> set v \<and> CR \<notin> set v" by fastforce
  then show ?thesis by (cases k) (simp_all add: action_text_def command_chosen_def)
qed

lemma action_text_tokens:
  assumes "value_survives k v"
  shows "split_ws (action_text k v)
         = (case k of Shortcut \<Rightarrow> [''xdotool'', ''key'', v] | Command \<Rightarrow> split_ws v)"
proof (cases k)
  case Command
  then show ?thesis by (simp add: action_text_def command_chosen_def)
next
  case Shortcut
  have sp: "isspace (CHR '' '')" by (simp add: isspace_def)
  have x: "split_ws ''xdotool'' = [''xdotool'']" and y: "split_ws ''key'' = [''key'']"
    by (simp_all add: split_ws_def isspace_def)
  from Shortcut assms have v: "split_ws v = [v]" by (simp add: value_survives_def)
  have "''xdotool key '' @ v = ''xdotool'' @ CHR '' '' # (''key'' @ CHR '' '' # v)" by simp
  then have "split_ws (''xdotool key '' @ v) = split_ws ''xdotool'' @ split_ws ''key'' @ split_ws v"
    by (simp only: split_ws_space [OF sp])
  with x y v Shortcut show ?thesis by (simp add: action_text_def)
qed

lemma prepare_line_shortcut:
  assumes "tokens line = [a, b, c, num, ''xdotool'', ''key'', v]"
    and "reversed_mapping (a @ '' '' @ b @ '' '' @ c) = Some label"
  shows "prepare_line empty_display line
         = Inr \<lparr>gestures = [label], fingers = [num], shortcuts = [v],
                buttons = [a @ '' '' @ b @ '' '' @ c], actions = [''shortcut'']\<rparr>"
  using assms
  by (simp add: prepare_line_def tokens_def [symmetric] subscript_def empty_display_def)

lemma prepare_line_command:
  assumes "tokens line = a # b # c # num # t0 # ts"
    and "reversed_mapping (a @ '' '' @ b @ '' '' @ c) = Some label"
    and "\<not> (t0 = ''xdotool'' \<and> (ts = [] \<or> ts ! 0 = ''key''))"
  shows "prepare_line empty_display line
         = Inr \<lparr>gestures = [label], fingers = [num], shortcuts = [join_str '' '' (t0 # ts)],
                buttons = [a @ '' '' @ b @ '' '' @ c], actions = [''command'']\<rparr>"
proof (cases "t0 = ''xdotool''")
  case False
  with assms(1,2) show ?thesis
    by (simp add: prepare_line_def tokens_def [symmetric] subscript_def empty_display_def)
next
  case True
  with assms(3) obtain t1 ts' where ts: "ts = t1 # ts'" and t1: "t1 \<noteq> ''key''"
    by (cases ts) auto
  with True assms(1,2) show ?thesis
    by (simp add: prepare_line_def tokens_def [symmetric] subscript_def empty_display_def)
qed

text \<open>
  C6 (as the code has it). For every label of the forward table, every finger count and
  every action value that \<open>value_survives\<close>, parsing the one-line file that
  \<open>save_changes\<close> writes for them gives back the label, the finger count as its decimal
  text, the action kind and the action value.
\<close>

theorem C6_round_trip:
  assumes "actions_mapping label = Some token" and "value_survives k v"
  shows "prepare_config_for_displaying (Some (entry_line token n (action_text k v)))
         = Inr \<lparr>gestures = [label], fingers = [str_int n], shortcuts = [v],
                buttons = [join_str '' '' (split_ws token)], actions = [kind_name k]\<rparr>"
proof -
  let ?text = "action_text k v"
  let ?line = "entry_line token n ?text"
  from actions_mapping_facts [OF assms(1)]
  have len: "length (split_ws token) = 3"
    and rm: "reversed_mapping (join_str '' '' (split_ws token)) = Some label"
    and sw: "startswith token ''gesture''"
    and tok: "TAB \<notin> set token" "LF \<notin> set token" "CR \<notin> set token"
    by (simp_all add: token_facts_def)
  from len obtain a b c where abc: "split_ws token = [a, b, c]"
    by (auto simp: length_Suc_conv numeral_3_eq_3)
  from rm abc have rm': "reversed_mapping (a @ '' '' @ b @ '' '' @ c) = Some label" by simp
  from action_text_plain [OF assms(2)]
  have tx: "TAB \<notin> set ?text" "LF \<notin> set ?text" "CR \<notin> set ?text" by simp_all
  have "entry_line token n ?text = (token @ [TAB] @ str_int n @ '' '' @ ?text) @ [LF]"
    by (simp add: entry_line_def)
  moreover have "LF \<notin> set (token @ [TAB] @ str_int n @ '' '' @ ?text)"
    using tok tx str_int_word(4) [of n] by simp
  moreover have "CR \<notin> set (token @ [TAB] @ str_int n @ '' '' @ ?text)"
    using tok tx str_int_word(5) [of n] by simp
  ultimately have rd: "read_config (Some ?line) = [?line]"
    using read_config_single by metis
  have st: "startswith ?line ''gesture''"
    unfolding entry_line_def using sw by (rule startswith_appendI)
  have tk: "tokens ?line = [a, b, c, str_int n] @ split_ws ?text"
    using entry_line_tokens [OF tok(1) tx(1), of n] abc by simp
  have "prepare_line empty_display ?line
         = Inr \<lparr>gestures = [label], fingers = [str_int n], shortcuts = [v],
                buttons = [a @ '' '' @ b @ '' '' @ c], actions = [kind_name k]\<rparr>"
  proof (cases k)
    case Shortcut
    with tk action_text_tokens [OF assms(2)]
    have "tokens ?line = [a, b, c, str_int n, ''xdotool'', ''key'', v]" by simp
    from prepare_line_shortcut [OF this rm'] Shortcut show ?thesis by (simp add: kind_name_def)
  next
    case Command
    with assms(2) have ne: "split_ws v \<noteq> []" and j: "join_str '' '' (split_ws v) = v"
      and nx: "\<not> (split_ws v ! 0 = ''xdotool'' \<and> (length (split_ws v) = 1 \<or> split_ws v ! 1 = ''key''))"
      by (simp_all add: value_survives_def)
    from ne obtain t0 ts where ts: "split_ws v = t0 # ts" by (cases "split_ws v") auto
    with tk action_text_tokens [OF assms(2)] Command
    have t: "tokens ?line = a # b # c # str_int n # t0 # ts" by simp
    from nx ts have "\<not> (t0 = ''xdotool'' \<and> (ts = [] \<or> ts ! 0 = ''key''))" by auto
    from prepare_line_command [OF t rm' this] j ts Command show ?thesis
      by (simp add: kind_name_def)
  qed
  with rd st abc show ?thesis
    by (simp add: prepare_config_for_displaying_def)
qed

text \<open>The token written with two spaces comes back as its label.\<close>

theorem C6_witness:
  "actions_mapping ''Swipe LeftDown'' = Some ''gesture swipe  left_down''
   \<and> value_survives Shortcut ''ctrl+super+Page_Down''
   \<and> prepare_config_for_displaying
       (Some (entry_line ''gesture swipe  left_down'' 3 (action_text Shortcut ''ctrl+super+Page_Down'')))
     = Inr \<lparr>gestures = [''Swipe LeftDown''], fingers = [''3''],
            shortcuts = [''ctrl+super+Page_Down''],
            buttons = [''gesture swipe left_down''], actions = [''shortcut'']\<rparr>"
proof -
  have a: "actions_mapping ''Swipe LeftDown'' = Some ''gesture swipe  left_down''"
    by code_simp
  have b: "value_survives Shortcut ''ctrl+super+Page_Down''"
    by code_simp
  have c: "str_int 3 = ''3''" "join_str '' '' (split_ws ''gesture swipe  left_down'') = ''gesture swipe left_down''"
    "kind_name Shortcut = ''shortcut''"
    by code_simp+
  from C6_round_trip [OF a b, of 3] a b c show ?thesis by simp
qed

text \<open>A command with two spaces in a row comes back with one; a command that begins
  with \<open>xdotool key\<close> comes back as a shortcut.\<close>

theorem C6_counterexample:
  "actions_mapping ''Swipe Up'' = Some ''gesture swipe up''
   \<and> prepare_config_for_displaying
       (Some (entry_line ''gesture swipe up'' 3 (action_text Command ''echo  hi'')))
     = Inr \<lparr>gestures = [''Swipe Up''], fingers = [''3''], shortcuts = [''echo hi''],
            buttons = [''gesture swipe up''], actions = [''command'']\<rparr>
   \<and> ''echo hi'' \<noteq> ''echo  hi''
   \<and> prepare_config_for_displaying
       (Some (entry_line ''gesture swipe up'' 3 (action_text Command ''xdotool key F1'')))
     = Inr \<lparr>gestures = [''Swipe Up''], fingers = [''3''], shortcuts = [''F1''],
            buttons = [''gesture swipe up''], actions = [''shortcut'']\<rparr>"
  by code_simp

section \<open>Results on editing\<close>

lemma save_changes_loop_filter:
  "save_changes_loop p acc ls = acc @ filter (\<lambda>l. \<not> startswith (replace_tab l) p) ls"
  by (induction ls arbitrary: acc) simp_all

lemma readlines_acc_all_terminated:
  "LF \<notin> set cur \<Longrightarrow> s \<noteq> [] \<Longrightarrow> last s = LF \<Longrightarrow> \<forall>l\<in>set (readlines_acc cur s). terminated l"
proof (induction s arbitrary: cur)
  case Nil
  then show ?case by simp
next
  case (Cons c s)
  show ?case
  proof (cases "c = LF")
    case True
    have t: "terminated (cur @ [LF])" using Cons.prems(1) by (simp add: terminated_def)
    show ?thesis
    proof (cases "s = []")
      case True
      with \<open>c = LF\<close> t show ?thesis by simp
    next
      case False
      with Cons.prems have "last s = LF" by simp
      from Cons.IH [OF _ False this, of "[]"] \<open>c = LF\<close> t show ?thesis by simp
    qed
  next
    case False
    with Cons.prems have ne: "s \<noteq> []" and l: "last s = LF" by (auto split: if_splits)
    from False Cons.prems(1) have "LF \<notin> set (cur @ [c])" by simp
    from Cons.IH [OF this ne l] False show ?thesis by simp
  qed
qed

lemma all_terminated_wf: "\<forall>l\<in>set ls. terminated l \<Longrightarrow> wf_lines ls"
  by (induction ls) (simp_all add: wf_lines_Cons)

lemma read_config_terminated:
  assumes "t \<noteq> []" and "last t = LF"
  shows "\<forall>l\<in>set (read_config (Some t)). terminated l"
proof -
  from universal_newlines_last [OF assms]
  have "universal_newlines t \<noteq> []" and "last (universal_newlines t) = LF" by simp_all
  from readlines_acc_all_terminated [OF _ this, of "[]"] show ?thesis
    by (simp add: read_config_def readlines_def)
qed

lemma read_config_after_save:
  assumes "action \<noteq> []" and "n \<noteq> 0" and "s \<noteq> []"
  shows "\<forall>l\<in>set (read_config (save_changes action n s f)). terminated l"
proof -
  have "save_changes action n s f
        = Some (concat (save_changes_loop (entry_prefix action n) [] (read_config f))
                @ entry_line action n s)"
    using assms by (simp add: save_changes_def write_config_def join_str_Nil)
  moreover have "concat (save_changes_loop (entry_prefix action n) [] (read_config f))
                 @ entry_line action n s \<noteq> []"
    by (simp add: entry_line_def)
  moreover have "last (concat (save_changes_loop (entry_prefix action n) [] (read_config f))
                 @ entry_line action n s) = LF"
    by (simp add: entry_line_def)
  ultimately show ?thesis using read_config_terminated by metis
qed

lemma entry_line_terminated:
  assumes "LF \<notin> set token" and "LF \<notin> set s"
  shows "terminated (entry_line token n s)"
proof -
  define w where "w = token @ [TAB] @ str_int n @ '' '' @ s"
  have "entry_line token n s = w @ [LF]"
    by (simp add: entry_line_def w_def)
  moreover have "LF \<notin> set w"
    using assms str_int_word(4) [of n] by (simp add: w_def)
  ultimately show ?thesis by (simp add: terminated_def)
qed

lemma entry_line_no_CR:
  assumes "CR \<notin> set token" and "CR \<notin> set s"
  shows "CR \<notin> set (entry_line token n s)"
  using assms str_int_word(5) [of n] by (simp add: entry_line_def)

lemma entry_line_matches:
  assumes "TAB \<notin> set token"
  shows "startswith (replace_tab (entry_line token n s)) (entry_prefix token n)"
proof -
  have "replace_tab (entry_line token n s)
        = (token @ '' '' @ str_int n) @ replace_tab ('' '' @ s @ [LF])"
    using assms str_int_word(3) [of n]
    by (simp add: entry_line_def replace_tab_append replace_tab_id replace_tab_Cons)
  then show ?thesis by (simp only: entry_prefix_def startswith_append)
qed

lemma save_changes_lines:
  assumes "token \<noteq> []" and "n \<noteq> 0" and "s \<noteq> []"
    and "LF \<notin> set token" and "CR \<notin> set token"
    and "LF \<notin> set s" and "CR \<notin> set s"
    and "\<forall>l\<in>set (read_config f). terminated l"
  shows "read_config (save_changes token n s f)
         = filter (\<lambda>l. \<not> startswith (replace_tab l) (entry_prefix token n)) (read_config f)
           @ [entry_line token n s]"
proof -
  let ?new = "filter (\<lambda>l. \<not> startswith (replace_tab l) (entry_prefix token n)) (read_config f)
              @ [entry_line token n s]"
  have sc: "save_changes token n s f = write_config ?new"
    using assms(1-3) by (simp add: save_changes_def save_changes_loop_filter)
  have "\<forall>l\<in>set ?new. terminated l"
    using assms(8) entry_line_terminated [OF assms(4) assms(6)] by auto
  then have wf: "wf_lines ?new" by (rule all_terminated_wf)
  have "\<forall>l\<in>set ?new. CR \<notin> set l"
    using read_config_no_CR [of _ f] entry_line_no_CR [OF assms(5) assms(7)] by auto
  from read_write_config [OF wf this] sc show ?thesis by simp
qed

text \<open>
  C5 (as the code has it). After \<open>save_changes\<close> for a gesture, a non-zero finger
  count and a non-empty action, followed by \<open>save_changes\<close> for the same gesture and
  finger count and a second non-empty action of one line, the file has exactly one line
  whose text, tabs read as spaces, starts with the literal prefix made of the token, a
  space and the finger count: the line of the second action, which is the last line.
\<close>

theorem C5_upsert_twice:
  assumes "actions_mapping label = Some token" and "n \<noteq> 0" and "s \<noteq> []" and "s' \<noteq> []"
    and "LF \<notin> set s'" and "CR \<notin> set s'"
  shows "read_config (save_changes token n s' (save_changes token n s f))
           = filter (\<lambda>l. \<not> startswith (replace_tab l) (entry_prefix token n))
               (read_config (save_changes token n s f))
             @ [entry_line token n s']
         \<and> filter (\<lambda>l. startswith (replace_tab l) (entry_prefix token n))
             (read_config (save_changes token n s' (save_changes token n s f)))
           = [entry_line token n s']
         \<and> last (read_config (save_changes token n s' (save_changes token n s f)))
           = entry_line token n s'"
proof -
  from actions_mapping_facts [OF assms(1)]
  have sw: "startswith token ''gesture''"
    and tok: "TAB \<notin> set token" "LF \<notin> set token" "CR \<notin> set token"
    by (simp_all add: token_facts_def)
  from sw have ne: "token \<noteq> []" by (cases token) simp_all
  have t1: "\<forall>l\<in>set (read_config (save_changes token n s f)). terminated l"
    using ne assms(2,3) by (rule read_config_after_save)
  from save_changes_lines [OF ne assms(2) assms(4) tok(2) tok(3) assms(5) assms(6) t1]
  have r: "read_config (save_changes token n s' (save_changes token n s f))
           = filter (\<lambda>l. \<not> startswith (replace_tab l) (entry_prefix token n))
               (read_config (save_changes token n s f))
             @ [entry_line token n s']" .
  have m: "startswith (replace_tab (entry_line token n s')) (entry_prefix token n)"
    using tok(1) by (rule entry_line_matches)
  have "filter (\<lambda>l. startswith (replace_tab l) (entry_prefix token n))
          (filter (\<lambda>l. \<not> startswith (replace_tab l) (entry_prefix token n))
             (read_config (save_changes token n s f))) = []"
    by (simp add: filter_empty_conv)
  with r m show ?thesis by simp
qed

text \<open>Two saves on a file whose last line is not terminated.\<close>

theorem C5_witness:
  "actions_mapping ''Swipe Up'' = Some ''gesture swipe up''
   \<and> read_config
       (save_changes ''gesture swipe up'' 3 ''xdotool key c''
         (save_changes ''gesture swipe up'' 3 ''xdotool key b''
           (Some ''# c\<newline>gesture swipe up 3 old\<newline>gesture pinch in 2 x'')))
     = [''# c\<newline>'',
        ''gesture pinch in 2 xgesture swipe up'' @ [TAB] @ ''3 xdotool key b\<newline>'',
        ''gesture swipe up'' @ [TAB] @ ''3 xdotool key c\<newline>'']"
proof -
  have a: "actions_mapping ''Swipe Up'' = Some ''gesture swipe up''"
    by code_simp
  have b: "(3::int) \<noteq> 0" "''xdotool key b'' \<noteq> []" "''xdotool key c'' \<noteq> []"
    "LF \<notin> set ''xdotool key c''" "CR \<notin> set ''xdotool key c''"
    by simp_all
  have c: "filter (\<lambda>l. \<not> startswith (replace_tab l) (entry_prefix ''gesture swipe up'' 3))
               (read_config (save_changes ''gesture swipe up'' 3 ''xdotool key b''
                  (Some ''# c\<newline>gesture swipe up 3 old\<newline>gesture pinch in 2 x'')))
             @ [entry_line ''gesture swipe up'' 3 ''xdotool key c'']
     = [''# c\<newline>'',
        ''gesture pinch in 2 xgesture swipe up'' @ [TAB] @ ''3 xdotool key b\<newline>'',
        ''gesture swipe up'' @ [TAB] @ ''3 xdotool key c\<newline>'']"
    by code_simp
  from C5_upsert_twice [OF a b, of "Some ''# c\<newline>gesture swipe up 3 old\<newline>gesture pinch in 2 x''"] a c
  show ?thesis by simp
qed

text \<open>A binding written with two spaces before the finger count is not replaced: the
  parser then shows two entries for \<open>Swipe Up\<close> with three fingers.\<close>

theorem C5_counterexample:
  "actions_mapping ''Swipe Up'' = Some ''gesture swipe up''
   \<and> prepare_config_for_displaying
       (save_changes ''gesture swipe up'' 3 ''xdotool key c''
         (save_changes ''gesture swipe up'' 3 ''xdotool key b''
           (Some ''gesture swipe up  3 xdotool key a\<newline>'')))
     = Inr \<lparr>gestures = [''Swipe Up'', ''Swipe Up''], fingers = [''3'', ''3''],
            shortcuts = [''a'', ''c''],
            buttons = [''gesture swipe up'', ''gesture swipe up''],
            actions = [''shortcut'', ''shortcut'']\<rparr>"
  by code_simp

text \<open>
  C4 (code defect). \<open>delete_entry\<close> removes every line that starts with the accessible
  name of the button, and that name is the gesture token without the finger count. In a
  file with \<open>Swipe Up\<close> for three fingers and for four fingers, deleting either entry
  removes both; deleting \<open>Swipe Left\<close> also removes \<open>Swipe LeftUp\<close>.
\<close>

theorem C4_delete_ignores_finger_count:
  "prepare_config_for_displaying
     (Some (entry_line ''gesture swipe up'' 3 ''xdotool key a''
            @ entry_line ''gesture swipe up'' 4 ''xdotool key b''))
     = Inr \<lparr>gestures = [''Swipe Up'', ''Swipe Up''], fingers = [''3'', ''4''],
            shortcuts = [''a'', ''b''],
            buttons = [''gesture swipe up'', ''gesture swipe up''],
            actions = [''shortcut'', ''shortcut'']\<rparr>
   \<and> read_config
        (delete_entry ''gesture swipe up'' True
          (Some (entry_line ''gesture swipe up'' 3 ''xdotool key a''
                 @ entry_line ''gesture swipe up'' 4 ''xdotool key b''))) = []
   \<and> read_config
        (delete_entry ''gesture swipe left'' True
          (Some (entry_line ''gesture swipe left'' 3 ''xdotool key a''
                 @ entry_line ''gesture swipe left_up'' 3 ''xdotool key b''))) = []"
  by code_simp

text \<open>
  C7 (code defect). When the last line of the file has no \<open>\n\<close>, \<open>save_changes\<close> joins
  the new line to it: the directive \<open>device touchpad\<close> becomes the line
  \<open>device touchpadgesture swipe up\t3 xdotool key a\<close>, the file no longer has the
  directive line, and the new binding is not parsed.
\<close>

theorem C7_unterminated_last_line:
  "read_config (Some ''# keep\<newline>device touchpad'') = [''# keep\<newline>'', ''device touchpad'']
   \<and> spec_line_wellformed spec_parses_as_int ''device touchpad''
   \<and> read_config (save_changes ''gesture swipe up'' 3 ''xdotool key a''
        (Some ''# keep\<newline>device touchpad''))
     = [''# keep\<newline>'', ''device touchpadgesture swipe up'' @ [TAB] @ ''3 xdotool key a\<newline>'']
   \<and> ''device touchpad'' \<notin> set (read_config (save_changes ''gesture swipe up'' 3 ''xdotool key a''
        (Some ''# keep\<newline>device touchpad'')))
   \<and> prepare_config_for_displaying (save_changes ''gesture swipe up'' 3 ''xdotool key a''
        (Some ''# keep\<newline>device touchpad'')) = Inr empty_display"
  by code_simp

text \<open>What does hold for comment and directive lines: \<open>delete_entry\<close> keeps them
  all, and \<open>save_changes\<close> keeps them all when every line of the file is terminated.\<close>

lemma delete_entry_lines:
  "read_config (delete_entry name True f) = filter (\<lambda>l. \<not> startswith l name) (read_config f)"
  by (simp add: delete_entry_def read_write_filter)

lemma first_token_first_char:
  assumes "\<not> isspace c"
  shows "\<exists>w. tokens (c # rest) \<noteq> [] \<and> tokens (c # rest) ! 0 = c # w"
proof -
  have "isspace TAB" by (simp add: isspace_def)
  with assms have "c \<noteq> TAB" by auto
  then have "replace_tab (c # rest) = c # replace_tab rest" by (simp add: replace_tab_def)
  moreover from split_ws_first [OF assms, of "replace_tab rest"]
  obtain w r where "split_ws (c # replace_tab rest) = (c # w) # r" by blast
  ultimately show ?thesis by (simp add: tokens_def)
qed

lemma passthrough_not_gesture:
  assumes "passthrough_line line"
  shows "\<not> startswith line (CHR ''g'' # p) \<and> \<not> startswith (replace_tab line) (CHR ''g'' # p)"
proof -
  have g: "\<not> isspace (CHR ''g'')" by (simp add: isspace_def)
  have "\<not> passthrough_line (CHR ''g'' # rest)" for rest
    using first_token_first_char [OF g, of rest] by (auto simp: passthrough_line_def)
  with assms have "\<exists>c rest. line = c # rest \<and> c \<noteq> CHR ''g'' \<or> line = []"
    by (cases line) auto
  then show ?thesis by (auto simp: replace_tab_def split: if_splits)
qed

lemma delete_entry_keeps_passthrough:
  assumes "line \<in> set (read_config f)" and "passthrough_line line"
  shows "line \<in> set (read_config (delete_entry (CHR ''g'' # p) reply f))"
proof (cases reply)
  case False
  with assms(1) show ?thesis by (simp add: delete_entry_def)
next
  case True
  with assms(1) passthrough_not_gesture [OF assms(2), of p] show ?thesis
    by (simp add: delete_entry_lines)
qed

lemma save_changes_keeps_passthrough:
  assumes "line \<in> set (read_config f)" and "passthrough_line line"
    and "actions_mapping label = Some token"
    and "LF \<notin> set s" and "CR \<notin> set s"
    and "\<forall>l\<in>set (read_config f). terminated l"
  shows "line \<in> set (read_config (save_changes token n s f))"
proof (cases "n \<noteq> 0 \<and> s \<noteq> []")
  case False
  with assms(1) show ?thesis by (auto simp: save_changes_def)
next
  case True
  from actions_mapping_facts [OF assms(3)]
  have sw: "startswith token ''gesture''"
    and tok: "LF \<notin> set token" "CR \<notin> set token"
    by (simp_all add: token_facts_def)
  from sw obtain p where token: "token = CHR ''g'' # p" by (cases token) simp_all
  then have pre: "entry_prefix token n = CHR ''g'' # (p @ '' '' @ str_int n)"
    by (simp add: entry_prefix_def)
  from token have ne: "token \<noteq> []" by simp
  from True have n: "n \<noteq> 0" and s: "s \<noteq> []" by simp_all
  from save_changes_lines [OF ne n s tok assms(4) assms(5) assms(6)]
    passthrough_not_gesture [OF assms(2), of "p @ '' '' @ str_int n"] pre assms(1)
  show ?thesis by simp
qed

end
